theory Spec2Isabelle
  imports Complex_Main "HOL-Library.Word" "HOL-Library.AList" "HOL-Library.Sublist"
begin

section \<open>JavaScript strings\<close>

text \<open>
  A JavaScript string is a sequence of 16-bit code units. \<open>lit\<close> writes a literal of the
  source (ASCII) as such a sequence.
\<close>

type_synonym codeunit = "16 word"
type_synonym jsstring = "codeunit list"

definition lit :: "string \<Rightarrow> jsstring" where
  "lit s = map (\<lambda>c. of_nat (of_char c)) s"

text \<open>
  \<open>StrWhiteSpaceChar\<close> of ECMAScript: WhiteSpace (TAB, VT, FF, SP, NBSP, ZWNBSP and the
  category Zs) and LineTerminator (LF, CR, LS, PS). Both \<open>String.prototype.trim\<close> and the
  leading-blank skip of \<open>parseInt\<close> use this set.
\<close>

definition isStrWhiteSpaceChar :: "codeunit \<Rightarrow> bool" where
  "isStrWhiteSpaceChar c \<longleftrightarrow>
     c \<in> set [0x09, 0x0B, 0x0C, 0x20, 0xA0, 0xFEFF, 0x1680, 0x202F, 0x205F, 0x3000,
              0x0A, 0x0D, 0x2028, 0x2029]
     \<or> (0x2000 \<le> c \<and> c \<le> 0x200A)"

definition trimStart :: "jsstring \<Rightarrow> jsstring" where
  "trimStart s = dropWhile isStrWhiteSpaceChar s"

definition trimEnd :: "jsstring \<Rightarrow> jsstring" where
  "trimEnd s = rev (dropWhile isStrWhiteSpaceChar (rev s))"

definition trim :: "jsstring \<Rightarrow> jsstring" where
  "trim s = trimEnd (trimStart s)"

subsection \<open>\<open>parseInt(string, 10)\<close> and \<open>String(number)\<close>\<close>

definition isDecimalDigit :: "codeunit \<Rightarrow> bool" where
  "isDecimalDigit c \<longleftrightarrow> 0x30 \<le> c \<and> c \<le> 0x39"

definition digitValue :: "codeunit \<Rightarrow> nat" where
  "digitValue c = unat c - 0x30"

definition mathInt :: "jsstring \<Rightarrow> nat" where
  "mathInt Z = foldl (\<lambda>acc c. 10 * acc + digitValue c) 0 Z"

text \<open>
  \<open>parseInt\<close> with radix 10, following the steps of the language specification: skip
  leading white space, read an optional sign, take the longest prefix of decimal digits;
  no digit gives \<open>NaN\<close> (here \<open>None\<close>).

  The source's number is a double. The model keeps the exact integer: rounding to the
  nearest double is monotone and leaves every integer below \<open>2 ^ 53\<close> as it is, so the
  comparisons with 1 and 65535 in \<open>sanitizePort\<close> have the same outcome on both, and
  \<open>String(num)\<close> is only reached for \<open>1 \<le> num \<le> 65535\<close>, where the double is the
  integer. The sign of a zero does not matter either: \<open>-0 < 1\<close> holds as \<open>0 < 1\<close> does.
\<close>

definition parseInt10 :: "jsstring \<Rightarrow> int option" where
  "parseInt10 inputString =
     (let S = trimStart inputString;
          sign = (if S \<noteq> [] \<and> hd S = 0x2D then - 1 else 1);
          S' = (if S \<noteq> [] \<and> (hd S = 0x2B \<or> hd S = 0x2D) then tl S else S);
          Z = takeWhile isDecimalDigit S'
      in if Z = [] then None else Some (sign * int (mathInt Z)))"

definition digitChar :: "nat \<Rightarrow> codeunit" where
  "digitChar d = of_nat (0x30 + d)"

fun decimalDigits :: "nat \<Rightarrow> jsstring" where
  "decimalDigits n =
     (if n < 10 then [digitChar n]
      else decimalDigits (n div 10) @ [digitChar (n mod 10)])"

declare decimalDigits.simps [simp del]

text \<open>\<open>String(num)\<close> on an integer-valued number below \<open>10 ^ 21\<close> in absolute value.\<close>

definition String_num :: "int \<Rightarrow> jsstring" where
  "String_num n =
     (if n < 0 then 0x2D # decimalDigits (nat (- n)) else decimalDigits (nat n))"

section \<open>Security helpers\<close>

text \<open>
  \<open>sanitizePort\<close>. The argument is \<open>process.env.VERTEXHUB_PORT\<close>: a string, or
  \<open>undefined\<close> (\<open>None\<close>) when the variable is not set. \<open>!port\<close> holds for \<open>undefined\<close> and
  for the empty string. \<open>null\<close> is \<open>None\<close>.
\<close>

definition sanitizePort :: "jsstring option \<Rightarrow> jsstring option" where
  "sanitizePort port =
     (case port of
        None \<Rightarrow> None
      | Some p \<Rightarrow>
          if p = [] then None
          else (case parseInt10 p of
                  None \<Rightarrow> None
                | Some num \<Rightarrow>
                    if num < 1 \<or> num > 65535 \<or> String_num num \<noteq> trim p then None
                    else Some (String_num num)))"

text \<open>
  The port text the specification calls canonical: decimal digits only, no leading
  zero, value between 1 and 65535.
\<close>

definition spec_canonicalPortText :: "jsstring \<Rightarrow> bool" where
  "spec_canonicalPortText t \<longleftrightarrow>
     t \<noteq> [] \<and> list_all isDecimalDigit t \<and> hd t \<noteq> 0x30
     \<and> 1 \<le> mathInt t \<and> mathInt t \<le> 65535"

text \<open>
  \<open>sanitizeForTerminal\<close>: \<open>String(str).replace(/[\x00-\x08\x0b\x0c\x0e-\x1f\x7f]/g, '')\<close>.
  The character class is a list of inclusive ranges; a global replace of a one-unit
  class by the empty string deletes every code unit the class matches.
\<close>

definition controlClass :: "(codeunit \<times> codeunit) list" where
  "controlClass = [(0x00, 0x08), (0x0B, 0x0B), (0x0C, 0x0C), (0x0E, 0x1F), (0x7F, 0x7F)]"

definition classMatches :: "(codeunit \<times> codeunit) list \<Rightarrow> codeunit \<Rightarrow> bool" where
  "classMatches cls c = list_ex (\<lambda>(lo, hi). lo \<le> c \<and> c \<le> hi) cls"

definition replaceClassGlobal :: "(codeunit \<times> codeunit) list \<Rightarrow> jsstring \<Rightarrow> jsstring" where
  "replaceClassGlobal cls s = filter (\<lambda>c. \<not> classMatches cls c) s"

definition sanitizeForTerminal :: "jsstring \<Rightarrow> jsstring" where
  "sanitizeForTerminal str = replaceClassGlobal controlClass str"

text \<open>The control ranges as the specification lists them.\<close>

definition spec_isControl :: "codeunit \<Rightarrow> bool" where
  "spec_isControl c \<longleftrightarrow>
     c \<le> 0x08 \<or> (0x0B \<le> c \<and> c \<le> 0x0C) \<or> (0x0E \<le> c \<and> c \<le> 0x1F) \<or> c = 0x7F"

section \<open>Configuration\<close>

type_synonym env = "jsstring \<rightharpoonup> jsstring"

definition DEFAULT_PORT :: jsstring where
  "DEFAULT_PORT = lit ''8090''"

text \<open>
  \<open>sanitizePort(process.env.VERTEXHUB_PORT) || DEFAULT_PORT\<close>: the right operand is taken
  when the left one is falsy, that is \<open>null\<close> or the empty string.
\<close>

definition PROXY_PORT :: "env \<Rightarrow> jsstring" where
  "PROXY_PORT process_env =
     (case sanitizePort (process_env (lit ''VERTEXHUB_PORT'')) of
        None \<Rightarrow> DEFAULT_PORT
      | Some p \<Rightarrow> if p = [] then DEFAULT_PORT else p)"

definition PROXY_URL :: "env \<Rightarrow> jsstring" where
  "PROXY_URL process_env = lit ''http://127.0.0.1:'' @ PROXY_PORT process_env"

text \<open>The environments handed to \<open>spawn\<close> by \<open>startProxy\<close>, \<open>cmdLogin\<close>/\<open>cmdAccounts\<close>
  and \<open>cmdStart\<close>.\<close>

definition startProxy_env :: "env \<Rightarrow> env" where
  "startProxy_env process_env =
     process_env(lit ''PORT'' \<mapsto> PROXY_PORT process_env, lit ''HOST'' \<mapsto> lit ''127.0.0.1'')"

definition accounts_env :: "env \<Rightarrow> env" where
  "accounts_env process_env = process_env(lit ''PORT'' \<mapsto> PROXY_PORT process_env)"

definition claude_env :: "env \<Rightarrow> env" where
  "claude_env process_env =
     process_env(lit ''ANTHROPIC_BASE_URL'' \<mapsto> PROXY_URL process_env,
                 lit ''ANTHROPIC_AUTH_TOKEN'' \<mapsto> lit ''vertexhub-proxy'')"

section \<open>Forwarded subcommands\<close>

definition allowedSubcommands :: "jsstring list" where
  "allowedSubcommands = [lit ''add'', lit ''list'', lit ''remove'', lit ''verify'']"

fun Array_includes :: "'a list \<Rightarrow> 'a \<Rightarrow> bool" where
  "Array_includes [] x = False"
| "Array_includes (y # ys) x = (y = x \<or> Array_includes ys x)"

text \<open>\<open>args.filter(arg => allowedSubcommands.includes(arg))\<close>, and \<open>cmdAccounts\<close>'s use
  of it on \<open>process.argv.slice(3)\<close>.\<close>

definition filterAllowedSubcommands :: "jsstring list \<Rightarrow> jsstring list" where
  "filterAllowedSubcommands args = filter (\<lambda>arg. Array_includes allowedSubcommands arg) args"

definition cmdAccounts_subArgs :: "jsstring list \<Rightarrow> jsstring list" where
  "cmdAccounts_subArgs argv = filterAllowedSubcommands (drop 3 argv)"

section \<open>JSON values and the two configuration files\<close>

text \<open>
  The values \<open>JSON.parse\<close> can return. A number is a double: finite, or an infinity
  (from a literal out of range), or the negative zero. An object is its list of own
  properties in insertion order, with distinct keys. (JavaScript lists the keys that
  look like array indices first; the statements below read an object through
  \<open>map_of\<close> and do not depend on the order.)
\<close>

datatype jsnumber = Finite rat | NegZero | PosInfinity | NegInfinity

datatype json =
    JNull
  | JBool bool
  | JNum jsnumber
  | JStr jsstring
  | JArr "json list"
  | JObj "(jsstring \<times> json) list"

fun typeof :: "json \<Rightarrow> string" where
  "typeof JNull = ''object''"
| "typeof (JBool b) = ''boolean''"
| "typeof (JNum n) = ''number''"
| "typeof (JStr s) = ''string''"
| "typeof (JArr xs) = ''object''"
| "typeof (JObj kvs) = ''object''"

fun Array_isArray :: "json \<Rightarrow> bool" where
  "Array_isArray (JArr xs) = True"
| "Array_isArray v = False"

text \<open>Truthiness of a value read from a property; \<open>None\<close> is \<open>undefined\<close>.\<close>

fun truthy :: "json option \<Rightarrow> bool" where
  "truthy None = False"
| "truthy (Some JNull) = False"
| "truthy (Some (JBool b)) = b"
| "truthy (Some (JNum n)) = (n \<noteq> Finite 0 \<and> n \<noteq> NegZero)"
| "truthy (Some (JStr s)) = (s \<noteq> [])"
| "truthy (Some (JArr xs)) = True"
| "truthy (Some (JObj kvs)) = True"

text \<open>
  Reading and assigning a property of a plain object. Both are only applied to plain
  objects: the source normalises \<open>settings\<close> and \<open>claudeJson\<close> first.
\<close>

fun getProp :: "json \<Rightarrow> jsstring \<Rightarrow> json option" where
  "getProp (JObj kvs) k = map_of kvs k"
| "getProp v k = None"

fun setProp :: "json \<Rightarrow> jsstring \<Rightarrow> json \<Rightarrow> json" where
  "setProp (JObj kvs) k x = JObj (AList.update k x kvs)"
| "setProp v k x = v"

text \<open>
  What an object spread \<open>{...v}\<close> copies: the own enumerable properties. An array and a
  string have one per index; a number or a boolean has none.
\<close>

fun ownEnumerableProps :: "json \<Rightarrow> (jsstring \<times> json) list" where
  "ownEnumerableProps (JObj kvs) = kvs"
| "ownEnumerableProps (JArr xs) = zip (map (\<lambda>i. String_num (int i)) [0..<length xs]) xs"
| "ownEnumerableProps (JStr s) =
     zip (map (\<lambda>i. String_num (int i)) [0..<length s]) (map (\<lambda>c. JStr [c]) s)"
| "ownEnumerableProps v = []"

text \<open>\<open>x || {}\<close>\<close>

definition orEmptyObject :: "json option \<Rightarrow> json" where
  "orEmptyObject x = (case x of None \<Rightarrow> JObj [] | Some v \<Rightarrow> if truthy (Some v) then v else JObj [])"

text \<open>The seven keys the object literal of \<open>configureClaudeSettings\<close> writes after the spread.\<close>

definition fixedEnv :: "env \<Rightarrow> (jsstring \<times> json) list" where
  "fixedEnv process_env =
     [(lit ''ANTHROPIC_AUTH_TOKEN'', JStr (lit ''vertexhub-proxy'')),
      (lit ''ANTHROPIC_BASE_URL'', JStr (PROXY_URL process_env)),
      (lit ''ANTHROPIC_MODEL'', JStr (lit ''claude-opus-4-6-thinking'')),
      (lit ''ANTHROPIC_DEFAULT_OPUS_MODEL'', JStr (lit ''claude-opus-4-6-thinking'')),
      (lit ''ANTHROPIC_DEFAULT_SONNET_MODEL'', JStr (lit ''claude-sonnet-4-5-thinking'')),
      (lit ''ANTHROPIC_DEFAULT_HAIKU_MODEL'', JStr (lit ''claude-sonnet-4-5'')),
      (lit ''CLAUDE_CODE_SUBAGENT_MODEL'', JStr (lit ''claude-sonnet-4-5-thinking''))]"

text \<open>
  \<open>{ ...(settings.env || {}), ANTHROPIC_AUTH_TOKEN: ..., ... }\<close>: the copied properties,
  then each fixed key assigned in turn (in place when the key is there, appended
  otherwise).
\<close>

definition mergedEnv :: "env \<Rightarrow> json \<Rightarrow> json" where
  "mergedEnv process_env settings =
     JObj (fold (\<lambda>(k, v). AList.update k v) (fixedEnv process_env)
            (ownEnumerableProps (orEmptyObject (getProp settings (lit ''env'')))))"

text \<open>
  The file system as far as \<open>configureClaudeSettings\<close> sees it: the two files, each
  absent, present but not readable (\<open>readFileSync\<close> throws), or a text. \<open>writeFileSync\<close>
  and \<open>mkdirSync\<close> throw when the world says so. The permission bits that
  \<open>writeFileSecure\<close> sets (mode \<open>0o600\<close>, then a \<open>chmodSync\<close> whose failure is ignored) are
  not part of the state. \<open>JSON.parse\<close> and \<open>JSON.stringify\<close> are the library's; the model
  takes them as parameters.
\<close>

datatype path = CLAUDE_SETTINGS_FILE | CLAUDE_JSON_FILE

datatype fnode = Unreadable | File jsstring

datatype exn = SyntaxError | SystemError

datatype msg =
    WarnCouldNotParse path exn
  | WarnCreatingNewSettings
  | OkSettingsConfigured
  | OkOnboardingBypassed
  | OkProxyAlreadyRunning
  | OkProxyStarted
  | ErrProxyDirNotFound
  | ErrCloneProxyHint
  | ErrEntryPointNotFound
  | ErrProxyDirCorrupted
  | ErrNodeNotFound
  | ErrNodeInstallHint
  | ErrProxyFailedToStart
  | ErrCheckHint
  | LogStartingProxy
  | BlankLine

record world =
  files :: "path \<rightharpoonup> fnode"
  unwritable :: "path \<Rightarrow> bool"
  mkdir_fails :: bool
  console :: "msg list"

type_synonym parser = "jsstring \<Rightarrow> exn + json"
type_synonym stringifier = "json \<Rightarrow> jsstring"

definition existsSync :: "world \<Rightarrow> path \<Rightarrow> bool" where
  "existsSync w p \<longleftrightarrow> files w p \<noteq> None"

definition readFileSync :: "world \<Rightarrow> path \<Rightarrow> exn + jsstring" where
  "readFileSync w p = (case files w p of Some (File text) \<Rightarrow> Inr text | _ \<Rightarrow> Inl SystemError)"

definition writeFileSecure :: "world \<Rightarrow> path \<Rightarrow> jsstring \<Rightarrow> exn + world" where
  "writeFileSecure w p content =
     (if unwritable w p then Inl SystemError
      else Inr (w\<lparr>files := (files w)(p \<mapsto> File content)\<rparr>))"

definition say :: "world \<Rightarrow> msg \<Rightarrow> world" where
  "say w m = w\<lparr>console := console w @ [m]\<rparr>"

text \<open>
  Lines 187 to 200 of \<open>configureClaudeSettings\<close>, the specification's \<open>mergeJsonObject\<close>:
  start from \<open>{}\<close>; when the file exists, parse it inside \<open>try\<close>, and on any exception warn
  and keep \<open>{}\<close>; then replace whatever is not a plain object by \<open>{}\<close>.
\<close>

definition loadSettings :: "parser \<Rightarrow> world \<Rightarrow> json \<times> world" where
  "loadSettings JSON_parse w =
     (let (settings, w') =
        (if existsSync w CLAUDE_SETTINGS_FILE then
           (case (case readFileSync w CLAUDE_SETTINGS_FILE of
                    Inl e \<Rightarrow> Inl e
                  | Inr text \<Rightarrow> JSON_parse text) of
              Inr v \<Rightarrow> (v, w)
            | Inl e \<Rightarrow>
                (JObj [],
                 say (say w (WarnCouldNotParse CLAUDE_SETTINGS_FILE e)) WarnCreatingNewSettings))
         else (JObj [], w))
      in (if typeof settings \<noteq> ''object'' \<or> settings = JNull \<or> Array_isArray settings
          then JObj [] else settings, w'))"

text \<open>Lines 217 to 228: the same for the onboarding-flag file, with one warning.\<close>

definition loadClaudeJson :: "parser \<Rightarrow> world \<Rightarrow> json \<times> world" where
  "loadClaudeJson JSON_parse w =
     (let (claudeJson, w') =
        (if existsSync w CLAUDE_JSON_FILE then
           (case (case readFileSync w CLAUDE_JSON_FILE of
                    Inl e \<Rightarrow> Inl e
                  | Inr text \<Rightarrow> JSON_parse text) of
              Inr v \<Rightarrow> (v, w)
            | Inl e \<Rightarrow> (JObj [], say w (WarnCouldNotParse CLAUDE_JSON_FILE e)))
         else (JObj [], w))
      in (if typeof claudeJson \<noteq> ''object'' \<or> claudeJson = JNull \<or> Array_isArray claudeJson
          then JObj [] else claudeJson, w'))"

text \<open>
  \<open>configureClaudeSettings\<close>. An exception of \<open>mkdirSync\<close> or of a write is not caught in
  the source and leaves the function (\<open>Inl\<close>).
\<close>

definition configureClaudeSettings ::
    "parser \<Rightarrow> stringifier \<Rightarrow> env \<Rightarrow> world \<Rightarrow> exn + world" where
  "configureClaudeSettings JSON_parse JSON_stringify process_env w =
     (if mkdir_fails w then Inl SystemError
      else
        (let (settings, w1) = loadSettings JSON_parse w;
             settings' = setProp settings (lit ''env'') (mergedEnv process_env settings)
         in case writeFileSecure w1 CLAUDE_SETTINGS_FILE (JSON_stringify settings') of
              Inl e \<Rightarrow> Inl e
            | Inr w2 \<Rightarrow>
                (let (claudeJson, w3) = loadClaudeJson JSON_parse (say w2 OkSettingsConfigured)
                 in if \<not> truthy (getProp claudeJson (lit ''hasCompletedOnboarding'')) then
                      (case writeFileSecure w3 CLAUDE_JSON_FILE
                              (JSON_stringify
                                 (setProp claudeJson (lit ''hasCompletedOnboarding'') (JBool True))) of
                         Inl e \<Rightarrow> Inl e
                       | Inr w4 \<Rightarrow> Inr (say w4 OkOnboardingBypassed))
                    else Inr w3)))"

text \<open>
  A parser and a stringifier given by a finite table, to run the model on concrete
  files: a text outside the table does not parse.
\<close>

definition tableParser :: "(jsstring \<times> json) list \<Rightarrow> parser" where
  "tableParser tbl text = (case map_of tbl text of None \<Rightarrow> Inl SyntaxError | Some v \<Rightarrow> Inr v)"

definition tableStringifier :: "(json \<times> jsstring) list \<Rightarrow> stringifier" where
  "tableStringifier tbl v = (case map_of tbl v of None \<Rightarrow> [] | Some text \<Rightarrow> text)"

text \<open>
  Concrete files for running the model: a world where every write succeeds, a settings
  text, an onboarding-flag text with the flag false and one with the flag true, and
  what \<open>JSON.stringify(value, null, 2)\<close> writes for the flag object.
\<close>

definition demoWorld :: "(path \<rightharpoonup> fnode) \<Rightarrow> world" where
  "demoWorld fs = \<lparr>files = fs, unwritable = (\<lambda>p. False), mkdir_fails = False, console = []\<rparr>"

definition jsonQuote :: "jsstring \<Rightarrow> jsstring" where
  "jsonQuote s = 0x22 # s @ [0x22]"

definition demoSettingsText :: jsstring where
  "demoSettingsText =
     lit ''{'' @ jsonQuote (lit ''theme'') @ lit '':'' @ jsonQuote (lit ''dark'') @ lit '',''
     @ jsonQuote (lit ''env'') @ lit '':{'' @ jsonQuote (lit ''FOO'') @ lit '':''
     @ jsonQuote (lit ''bar'') @ lit ''}}''"

definition demoSettings :: "(jsstring \<times> json) list" where
  "demoSettings =
     [(lit ''theme'', JStr (lit ''dark'')),
      (lit ''env'', JObj [(lit ''FOO'', JStr (lit ''bar''))])]"

definition flagFalseText :: jsstring where
  "flagFalseText = lit ''{'' @ jsonQuote (lit ''hasCompletedOnboarding'') @ lit '':false}''"

definition flagTrueText :: jsstring where
  "flagTrueText = lit ''{'' @ jsonQuote (lit ''hasCompletedOnboarding'') @ lit '':true}''"

definition flagTrueWritten :: jsstring where
  "flagTrueWritten =
     lit ''{'' @ [0x0A] @ lit ''  '' @ jsonQuote (lit ''hasCompletedOnboarding'')
     @ lit '': true'' @ [0x0A] @ lit ''}''"

definition demoParser :: parser where
  "demoParser = tableParser
     [(lit ''[1,2,3]'', JArr [JNum (Finite 1), JNum (Finite 2), JNum (Finite 3)]),
      (lit ''null'', JNull),
      (lit ''{}'', JObj []),
      (demoSettingsText, JObj demoSettings),
      (flagFalseText, JObj [(lit ''hasCompletedOnboarding'', JBool False)]),
      (flagTrueText, JObj [(lit ''hasCompletedOnboarding'', JBool True)])]"

definition demoStringifier :: stringifier where
  "demoStringifier = tableStringifier
     [(JObj [(lit ''hasCompletedOnboarding'', JBool True)], flagTrueWritten)]"

section \<open>Starting and stopping the proxy\<close>

datatype effect =
    Sleep nat
  | Probe
  | StdoutWrite jsstring
  | ExecSync jsstring
  | Console msg
  | Spawn

datatype outcome = Exit nat | Continue

text \<open>
  The wait loop of \<open>cmdStart\<close> (lines 424 to 432), from iteration \<open>i\<close> on:
  \<open>for (; i < 15; i++) { await sleep(1000); if (await isProxyRunning()) { started = true;
  break; } process.stdout.write('.'); }\<close>. \<open>up i\<close> is what the health probe of iteration
  \<open>i\<close> answers; the result is \<open>started\<close> and the effects in order.
\<close>

function waitLoop :: "(nat \<Rightarrow> bool) \<Rightarrow> nat \<Rightarrow> effect list \<Rightarrow> bool \<times> effect list" where
  "waitLoop up i tr =
     (if i < 15 then
        (if up i then (True, tr @ [Sleep 1000, Probe])
         else waitLoop up (Suc i) (tr @ [Sleep 1000, Probe, StdoutWrite (lit ''.'')]))
      else (False, tr))"
  by pat_completeness auto
termination
  by (relation "measure (\<lambda>(up, i, tr). 15 - i)") auto

declare waitLoop.simps [simp del]

definition loopStep :: "effect list" where
  "loopStep = [Sleep 1000, Probe, StdoutWrite (lit ''.'')]"

text \<open>
  What \<open>startProxy\<close> needs from the machine: whether the proxy directory and its entry
  point exist, and the node binary \<open>getNodeBin\<close> finds, if any.
\<close>

record host =
  proxyDirExists :: bool
  proxyIndexExists :: bool
  nodeBin :: "jsstring option"

definition validateProxyDir :: "host \<Rightarrow> outcome \<times> effect list" where
  "validateProxyDir h =
     (if \<not> proxyDirExists h then
        (Exit 1, [Console ErrProxyDirNotFound, Console ErrCloneProxyHint])
      else if \<not> proxyIndexExists h then
        (Exit 1, [Console ErrEntryPointNotFound, Console ErrProxyDirCorrupted])
      else (Continue, []))"

definition requireNodeBin :: "host \<Rightarrow> outcome \<times> effect list" where
  "requireNodeBin h =
     (case nodeBin h of
        None \<Rightarrow> (Exit 1, [Console ErrNodeNotFound, Console ErrNodeInstallHint])
      | Some bin \<Rightarrow> (Continue, []))"

text \<open>\<open>startProxy\<close>, up to the spawn; the handlers it installs on the child run later.\<close>

definition startProxy :: "host \<Rightarrow> outcome \<times> effect list" where
  "startProxy h =
     (case validateProxyDir h of
        (Exit code, tr) \<Rightarrow> (Exit code, tr)
      | (Continue, tr) \<Rightarrow>
          (case requireNodeBin h of
             (Exit code, tr') \<Rightarrow> (Exit code, tr @ tr')
           | (Continue, tr') \<Rightarrow> (Continue, tr @ tr' @ [Console LogStartingProxy, Spawn])))"

text \<open>
  Step 2 of \<open>cmdStart\<close> (lines 418 to 440). \<open>running\<close> is the answer of the first health
  probe. \<open>process.exit(1)\<close> ends the run with \<open>Exit 1\<close>; \<open>Continue\<close> goes on to launching
  the coding CLI.
\<close>

definition cmdStart_proxy ::
    "bool \<Rightarrow> host \<Rightarrow> (nat \<Rightarrow> bool) \<Rightarrow> outcome \<times> effect list" where
  "cmdStart_proxy running h up =
     (if running then (Continue, [Probe, Console OkProxyAlreadyRunning])
      else
        (case startProxy h of
           (Exit code, tr0) \<Rightarrow> (Exit code, Probe # tr0)
         | (Continue, tr0) \<Rightarrow>
             (let (started, tr) = waitLoop up 0 (Probe # tr0);
                  tr' = tr @ [Console BlankLine]
              in if \<not> started then
                   (Exit 1, tr' @ [Console ErrProxyFailedToStart, Console ErrCheckHint])
                 else (Continue, tr' @ [Console OkProxyStarted]))))"

text \<open>A machine on which \<open>startProxy\<close> reaches the spawn.\<close>

definition demoHost :: host where
  "demoHost = \<lparr>proxyDirExists = True, proxyIndexExists = True,
               nodeBin = Some (lit ''/usr/bin/node'')\<rparr>"

text \<open>\<open>[...new Set(xs)]\<close>: the elements in the order of their first occurrence.\<close>

definition Set_values :: "'a list \<Rightarrow> 'a list" where
  "Set_values xs = fold (\<lambda>x acc. if x \<in> set acc then acc else acc @ [x]) xs []"

definition portsToFree :: "env \<Rightarrow> jsstring list" where
  "portsToFree process_env = Set_values [lit ''8080'', PROXY_PORT process_env]"

definition fuserCommand :: "jsstring \<Rightarrow> jsstring" where
  "fuserCommand port = lit ''fuser -k '' @ port @ lit ''/tcp 2>/dev/null''"

text \<open>
  The loop of \<open>stopProxy\<close>: \<open>try { execSync(...) } catch { }\<close> for each port. \<open>execSync\<close> is
  what running the command answers, an exception when it fails or times out.
\<close>

fun freePorts :: "(jsstring \<Rightarrow> exn + unit) \<Rightarrow> jsstring list \<Rightarrow> effect list \<Rightarrow> effect list" where
  "freePorts execSync [] tr = tr"
| "freePorts execSync (port # ports) tr =
     (case execSync (fuserCommand port) of
        Inl e \<Rightarrow> freePorts execSync ports (tr @ [ExecSync (fuserCommand port)])
      | Inr u \<Rightarrow> freePorts execSync ports (tr @ [ExecSync (fuserCommand port)]))"

definition stopProxy :: "(jsstring \<Rightarrow> exn + unit) \<Rightarrow> env \<Rightarrow> effect list" where
  "stopProxy execSync process_env =
     freePorts execSync (portsToFree process_env) [] @ [Sleep 2000]"

section \<open>Port sanitisation: decimal round trip\<close>

lemma mathInt_snoc: "mathInt (Z @ [c]) = 10 * mathInt Z + digitValue c"
  by (simp add: mathInt_def)

lemma unat_digitChar: "d < 10 \<Longrightarrow> unat (digitChar d) = 48 + d"
  unfolding digitChar_def by (rule of_nat_inverse [OF refl]) simp

lemma digitValue_digitChar: "d < 10 \<Longrightarrow> digitValue (digitChar d) = d"
  by (simp add: digitValue_def unat_digitChar)

lemma isDecimalDigit_digitChar: "d < 10 \<Longrightarrow> isDecimalDigit (digitChar d)"
  unfolding isDecimalDigit_def
  by (simp add: word_le_nat_alt unat_digitChar)

lemma decimalDigits_digits: "list_all isDecimalDigit (decimalDigits n)"
proof (induction n rule: decimalDigits.induct)
  case (1 n)
  show ?case
  proof (cases "n < 10")
    case True
    then show ?thesis by (simp add: decimalDigits.simps isDecimalDigit_digitChar)
  next
    case False
    then have "list_all isDecimalDigit (decimalDigits (n div 10))" using 1 by simp
    moreover have "isDecimalDigit (digitChar (n mod 10))"
      by (rule isDecimalDigit_digitChar) simp
    ultimately show ?thesis using False
      by (subst decimalDigits.simps) simp
  qed
qed

lemma decimalDigits_nonempty: "decimalDigits n \<noteq> []"
  by (subst decimalDigits.simps) simp

lemma mathInt_decimalDigits: "mathInt (decimalDigits n) = n"
proof (induction n rule: decimalDigits.induct)
  case (1 n)
  show ?case
  proof (cases "n < 10")
    case True
    then show ?thesis
      by (simp add: decimalDigits.simps mathInt_def digitValue_digitChar)
  next
    case False
    then have "mathInt (decimalDigits (n div 10)) = n div 10" using 1 by simp
    then show ?thesis using False
      by (subst decimalDigits.simps) (simp add: mathInt_snoc digitValue_digitChar)
  qed
qed

lemma hd_decimalDigits: "0 < n \<Longrightarrow> hd (decimalDigits n) \<noteq> 0x30"
proof (induction n rule: decimalDigits.induct)
  case (1 n)
  show ?case
  proof (cases "n < 10")
    case True
    have "unat (digitChar n) \<noteq> unat (0x30 :: codeunit)"
      using True 1(2) by (simp add: unat_digitChar)
    then have "digitChar n \<noteq> 0x30" by metis
    then show ?thesis using True by (simp add: decimalDigits.simps)
  next
    case False
    then have "hd (decimalDigits (n div 10)) \<noteq> 0x30" using 1 by simp
    then show ?thesis using False decimalDigits_nonempty [of "n div 10"]
      by (subst decimalDigits.simps) simp
  qed
qed

lemma digit_of_digitValue:
  "isDecimalDigit c \<Longrightarrow> digitChar (digitValue c) = c \<and> digitValue c < 10"
  unfolding isDecimalDigit_def digitValue_def digitChar_def
  by (auto simp: word_le_nat_alt)

lemma mathInt_pos:
  "t \<noteq> [] \<Longrightarrow> list_all isDecimalDigit t \<Longrightarrow> hd t \<noteq> 0x30 \<Longrightarrow> 0 < mathInt t"
proof (induction t rule: rev_induct)
  case Nil
  then show ?case by simp
next
  case (snoc c t)
  show ?case
  proof (cases "t = []")
    case True
    then have "isDecimalDigit c" "c \<noteq> 0x30" using snoc.prems by simp_all
    then have "unat c \<noteq> unat (0x30 :: codeunit)" "unat (0x30 :: codeunit) \<le> unat c"
      by (simp_all add: word_unat_eq_iff isDecimalDigit_def word_le_nat_alt)
    then have "0 < digitValue c"
      by (simp add: digitValue_def)
    then show ?thesis using True by (simp add: mathInt_def)
  next
    case False
    then have "0 < mathInt t" using snoc by simp
    then show ?thesis by (simp add: mathInt_snoc)
  qed
qed

lemma decimalDigits_mathInt:
  "t \<noteq> [] \<Longrightarrow> list_all isDecimalDigit t \<Longrightarrow> hd t \<noteq> 0x30 \<Longrightarrow> decimalDigits (mathInt t) = t"
proof (induction t rule: rev_induct)
  case Nil
  then show ?case by simp
next
  case (snoc c t)
  have c: "digitChar (digitValue c) = c" "digitValue c < 10"
    using snoc.prems digit_of_digitValue [of c] by simp_all
  show ?case
  proof (cases "t = []")
    case True
    then show ?thesis using c by (simp add: mathInt_def decimalDigits.simps)
  next
    case False
    then have t: "decimalDigits (mathInt t) = t" "0 < mathInt t"
      using snoc mathInt_pos [of t] by simp_all
    have "\<not> 10 * mathInt t + digitValue c < 10" using t(2) by simp
    moreover have "(10 * mathInt t + digitValue c) div 10 = mathInt t"
      "(10 * mathInt t + digitValue c) mod 10 = digitValue c"
      using c(2) by simp_all
    ultimately show ?thesis using t(1) c(1)
      by (subst decimalDigits.simps) (simp add: mathInt_snoc)
  qed
qed

lemma digit_not_whitespace: "isDecimalDigit c \<Longrightarrow> \<not> isStrWhiteSpaceChar c"
  by (auto simp: isDecimalDigit_def isStrWhiteSpaceChar_def word_le_nat_alt)

lemma digit_not_sign: "isDecimalDigit c \<Longrightarrow> c \<noteq> 0x2B \<and> c \<noteq> 0x2D"
  by (auto simp: isDecimalDigit_def)

lemma trimStart_decompose:
  "trimStart p = trim p @ rev (takeWhile isStrWhiteSpaceChar (rev (trimStart p)))"
proof -
  have "rev (trimStart p) =
          takeWhile isStrWhiteSpaceChar (rev (trimStart p)) @
          dropWhile isStrWhiteSpaceChar (rev (trimStart p))"
    by simp
  then have "rev (rev (trimStart p)) =
          rev (dropWhile isStrWhiteSpaceChar (rev (trimStart p))) @
          rev (takeWhile isStrWhiteSpaceChar (rev (trimStart p)))"
    by (metis rev_append)
  then show ?thesis by (simp add: trim_def trimEnd_def)
qed

lemma takeWhile_digit_whitespace:
  "list_all isStrWhiteSpaceChar ws \<Longrightarrow> takeWhile isDecimalDigit ws = []"
  by (cases ws) (auto dest: digit_not_whitespace)

lemma parseInt10_of_canonical:
  assumes "trim p = decimalDigits n"
  shows "parseInt10 p = Some (int n)"
proof -
  define D where "D = decimalDigits n"
  define ws where "ws = rev (takeWhile isStrWhiteSpaceChar (rev (trimStart p)))"
  have S: "trimStart p = D @ ws"
    using trimStart_decompose [of p] assms by (simp add: D_def ws_def)
  have ws: "list_all isStrWhiteSpaceChar ws"
    unfolding ws_def list_all_iff by (auto dest: set_takeWhileD)
  have D: "D \<noteq> []" "list_all isDecimalDigit D" "mathInt D = n"
    by (simp_all add: D_def decimalDigits_nonempty decimalDigits_digits mathInt_decimalDigits)
  then have "isDecimalDigit (hd D)" by (cases D) simp_all
  then have hd: "hd (D @ ws) \<noteq> 0x2B" "hd (D @ ws) \<noteq> 0x2D"
    using D(1) digit_not_sign [of "hd D"] by simp_all
  have "takeWhile isDecimalDigit (D @ ws) = D"
    using D(2) ws by (simp add: list_all_iff takeWhile_digit_whitespace)
  then show ?thesis
    using hd D by (simp add: parseInt10_def S)
qed

lemma trim_Nil: "trim [] = []"
  by (simp add: trim_def trimEnd_def trimStart_def)

lemma sanitizePort_Some_iff:
  "sanitizePort (Some s) = Some t \<longleftrightarrow>
     (\<exists>n\<in>{1..65535}. trim s = String_num n \<and> t = String_num n)"
proof
  assume a: "sanitizePort (Some s) = Some t"
  then obtain num where p: "parseInt10 s = Some num" "s \<noteq> []"
    by (cases "parseInt10 s") (simp_all add: sanitizePort_def split: if_splits)
  with a have "1 \<le> num" "num \<le> 65535" "String_num num = trim s" "t = String_num num"
    by (simp_all add: sanitizePort_def split: if_splits)
  then have "num \<in> {1..65535}" "trim s = String_num num \<and> t = String_num num"
    by simp_all
  then show "\<exists>n\<in>{1..65535}. trim s = String_num n \<and> t = String_num n"
    by (rule bexI [rotated])
next
  assume "\<exists>n\<in>{1..65535}. trim s = String_num n \<and> t = String_num n"
  then obtain n where n: "1 \<le> n" "n \<le> 65535" "trim s = String_num n" "t = String_num n"
    by auto
  then have "trim s = decimalDigits (nat n)" by (simp add: String_num_def)
  then have "parseInt10 s = Some (int (nat n))" by (rule parseInt10_of_canonical)
  moreover have "s \<noteq> []" using n(3) trim_Nil decimalDigits_nonempty [of "nat n"] n(1)
    by (auto simp: String_num_def)
  ultimately show "sanitizePort (Some s) = Some t"
    using n by (simp add: sanitizePort_def)
qed

lemma spec_canonicalPortText_iff:
  "spec_canonicalPortText t \<longleftrightarrow> (\<exists>n\<in>{1..65535}. t = String_num n)"
proof
  assume a: "spec_canonicalPortText t"
  then have "decimalDigits (mathInt t) = t"
    by (simp add: spec_canonicalPortText_def decimalDigits_mathInt)
  then have "t = String_num (int (mathInt t))" by (simp add: String_num_def)
  moreover have "int (mathInt t) \<in> {1..65535}"
    using a by (simp add: spec_canonicalPortText_def)
  ultimately show "\<exists>n\<in>{1..65535}. t = String_num n" by blast
next
  assume "\<exists>n\<in>{1..65535}. t = String_num n"
  then obtain n where n: "1 \<le> n" "n \<le> 65535" "t = decimalDigits (nat n)"
    by (auto simp: String_num_def)
  moreover have "0 < nat n" "Suc 0 \<le> nat n" "nat n \<le> 65535"
    using n(1,2) by simp_all
  ultimately show "spec_canonicalPortText t"
    using hd_decimalDigits [of "nat n"]
    by (simp add: spec_canonicalPortText_def decimalDigits_nonempty decimalDigits_digits
        mathInt_decimalDigits)
qed

lemma sanitizePort_accepts_iff:
  "sanitizePort (Some s) \<noteq> None \<longleftrightarrow> spec_canonicalPortText (trim s)"
proof -
  have "sanitizePort (Some s) \<noteq> None \<longleftrightarrow> (\<exists>t. sanitizePort (Some s) = Some t)"
    by auto
  also have "\<dots> \<longleftrightarrow> (\<exists>n\<in>{1..65535}. trim s = String_num n)"
    unfolding sanitizePort_Some_iff by blast
  finally show ?thesis by (simp add: spec_canonicalPortText_iff)
qed

lemma sanitizePort_value: "sanitizePort (Some s) = Some t \<Longrightarrow> t = trim s"
  unfolding sanitizePort_Some_iff by auto

lemmas port_eval =
  sanitizePort_def parseInt10_def trimStart_def trimEnd_def trim_def isStrWhiteSpaceChar_def
  isDecimalDigit_def mathInt_def digitValue_def String_num_def decimalDigits.simps
  digitChar_def lit_def

section \<open>Claims on the port sanitiser\<close>

text \<open>
  Claim C1. For every string \<open>s\<close>, \<open>sanitizePort\<close> (the specification's \<open>validatePort\<close>)
  returns a value if and only if \<open>s\<close>, trimmed, is the canonical decimal text of an
  integer between 1 and 65535: digits only, no leading zero, nothing else; the value
  returned is that text. The texts
  \<open>8090\<close> and \<open>65535\<close> are accepted; \<open>08080\<close>, \<open>3.14\<close>, \<open>-1\<close> and \<open>0\<close> are rejected.
\<close>

theorem sanitizePort_accepts_exactly_canonical:
  "(sanitizePort (Some s) \<noteq> None \<longleftrightarrow> spec_canonicalPortText (trim s))
   \<and> (spec_canonicalPortText (trim s) \<longleftrightarrow> (\<exists>n\<in>{1..65535}. trim s = String_num n))
   \<and> (\<forall>t. sanitizePort (Some s) = Some t \<longrightarrow> t = trim s)
   \<and> sanitizePort (Some (lit ''8090'')) = Some (lit ''8090'')
   \<and> sanitizePort (Some (lit ''65535'')) = Some (lit ''65535'')
   \<and> sanitizePort (Some (lit ''08080'')) = None
   \<and> sanitizePort (Some (lit ''3.14'')) = None
   \<and> sanitizePort (Some (lit ''-1'')) = None
   \<and> sanitizePort (Some (lit ''0'')) = None"
proof -
  have "sanitizePort (Some (lit ''8090'')) = Some (lit ''8090'')"
    by (simp add: port_eval)
  moreover have "sanitizePort (Some (lit ''65535'')) = Some (lit ''65535'')"
    by (simp add: port_eval)
  moreover have "sanitizePort (Some (lit ''08080'')) = None"
    by (simp add: port_eval)
  moreover have "sanitizePort (Some (lit ''3.14'')) = None"
    by (simp add: port_eval)
  moreover have "sanitizePort (Some (lit ''-1'')) = None"
    by (simp add: port_eval)
  moreover have "sanitizePort (Some (lit ''0'')) = None"
    by (simp add: port_eval)
  moreover have "\<forall>t. sanitizePort (Some s) = Some t \<longrightarrow> t = trim s"
    using sanitizePort_value [of s] by blast
  ultimately show ?thesis
    using sanitizePort_accepts_iff [of s] spec_canonicalPortText_iff [of "trim s"] by blast
qed

theorem sanitizePort_accepts_exactly_canonical_witness:
  "spec_canonicalPortText (trim (lit ''443''))
   \<and> (\<exists>n\<in>{1..65535}. trim (lit ''443'') = String_num n)
   \<and> trim (lit ''443'') = lit ''443''"
proof -
  have "sanitizePort (Some (lit ''443'')) = Some (lit ''443'')"
    by (simp add: port_eval)
  then show ?thesis
    using sanitizePort_accepts_exactly_canonical [of "lit ''443''"] by (metis option.distinct(1))
qed

text \<open>
  Claim C2, as stated, says that \<open>sanitizePort\<close> rejects the text \<open>80\<close> with a blank on
  each side. It does not: the comparison is against \<open>port.trim()\<close>.
\<close>

theorem sanitizePort_padded_counterexample:
  "\<not> (sanitizePort (Some (lit '' 80 '')) = None)"
  by (simp add: port_eval)

lemma trim_padded:
  assumes "list_all isStrWhiteSpaceChar ws1" "list_all isStrWhiteSpaceChar ws2"
    and "D \<noteq> []" "\<not> isStrWhiteSpaceChar (hd D)" "\<not> isStrWhiteSpaceChar (last D)"
  shows "trim (ws1 @ D @ ws2) = D"
proof -
  have "dropWhile isStrWhiteSpaceChar (ws1 @ D @ ws2) = dropWhile isStrWhiteSpaceChar (D @ ws2)"
    using assms(1) by (simp add: list_all_iff)
  also have "\<dots> = D @ ws2"
    using assms(3,4) by (cases D) simp_all
  finally have start: "trimStart (ws1 @ D @ ws2) = D @ ws2"
    by (simp add: trimStart_def)
  have "dropWhile isStrWhiteSpaceChar (rev ws2 @ rev D) = dropWhile isStrWhiteSpaceChar (rev D)"
    using assms(2) by (intro dropWhile_append2) (simp add: list_all_iff)
  also have "\<dots> = rev D"
    using assms(3,5) by (cases D rule: rev_cases) simp_all
  finally have "trimEnd (D @ ws2) = D"
    by (simp add: trimEnd_def)
  with start show ?thesis by (simp add: trim_def)
qed

text \<open>
  Claim C2, amended. A canonical port text with white space before and after it is
  accepted, and the value returned is the canonical text without the white space; so
  the text \<open>80\<close> with a blank on each side gives the port \<open>80\<close>.
\<close>

theorem sanitizePort_trims_padding:
  assumes "list_all isStrWhiteSpaceChar ws1" "list_all isStrWhiteSpaceChar ws2"
    and "1 \<le> n" "n \<le> 65535"
  shows "sanitizePort (Some (ws1 @ String_num n @ ws2)) = Some (String_num n)"
proof -
  define D where "D = String_num n"
  have D: "D = decimalDigits (nat n)" using assms(3) by (simp add: D_def String_num_def)
  then have d: "D \<noteq> []" "list_all isDecimalDigit D"
    by (simp_all add: decimalDigits_nonempty decimalDigits_digits)
  then have "\<not> isStrWhiteSpaceChar (hd D)" "\<not> isStrWhiteSpaceChar (last D)"
    by (auto simp: list_all_iff intro!: digit_not_whitespace)
  then have "trim (ws1 @ D @ ws2) = D"
    using assms(1,2) d(1) by (rule trim_padded [rotated 3])
  moreover have "n \<in> {1..65535}" using assms(3,4) by simp
  ultimately show ?thesis
    unfolding sanitizePort_Some_iff D_def by blast
qed

theorem sanitizePort_trims_padding_witness:
  "sanitizePort (Some (lit '' 80 '')) = Some (lit ''80'')"
proof -
  have ws: "list_all isStrWhiteSpaceChar (lit '' '')"
    by (simp add: lit_def isStrWhiteSpaceChar_def)
  have "sanitizePort (Some (lit '' '' @ String_num 80 @ lit '' '')) = Some (String_num 80)"
    by (rule sanitizePort_trims_padding [OF ws ws]) simp_all
  moreover have "String_num 80 = lit ''80''"
    by (simp add: String_num_def decimalDigits.simps digitChar_def lit_def)
  ultimately show ?thesis by (simp add: lit_def)
qed

section \<open>Claims on the effective port\<close>

lemma sanitizePort_injection: "sanitizePort (Some (lit ''8080; rm -rf /'')) = None"
  by (simp add: port_eval)

text \<open>
  Claim C3. Whenever the value of \<open>VERTEXHUB_PORT\<close> fails \<open>sanitizePort\<close>, the effective
  port is the default \<open>8090\<close>: in \<open>PROXY_PORT\<close>, in the proxy URL built from it and in the
  environment of every spawned process. No error arises: \<open>PROXY_PORT\<close> has a value for
  every environment. The injection text \<open>8080; rm -rf /\<close>, the unset variable and the
  empty text all fail the validation.
\<close>

theorem invalid_port_falls_back_to_default:
  "(sanitizePort (process_env (lit ''VERTEXHUB_PORT'')) = None \<longrightarrow>
      PROXY_PORT process_env = lit ''8090''
      \<and> PROXY_URL process_env = lit ''http://127.0.0.1:8090''
      \<and> startProxy_env process_env (lit ''PORT'') = Some (lit ''8090'')
      \<and> accounts_env process_env (lit ''PORT'') = Some (lit ''8090'')
      \<and> claude_env process_env (lit ''ANTHROPIC_BASE_URL'') = Some (lit ''http://127.0.0.1:8090''))
   \<and> DEFAULT_PORT = lit ''8090''
   \<and> sanitizePort (Some (lit ''8080; rm -rf /'')) = None
   \<and> sanitizePort None = None
   \<and> sanitizePort (Some []) = None"
proof -
  have "PROXY_PORT process_env = lit ''8090''"
    if "sanitizePort (process_env (lit ''VERTEXHUB_PORT'')) = None"
    using that by (simp add: PROXY_PORT_def DEFAULT_PORT_def)
  moreover have "lit ''http://127.0.0.1:'' @ lit ''8090'' = lit ''http://127.0.0.1:8090''"
    by (simp add: lit_def)
  moreover have "lit ''PORT'' \<noteq> lit ''HOST''"
    "lit ''ANTHROPIC_BASE_URL'' \<noteq> lit ''ANTHROPIC_AUTH_TOKEN''"
    by (simp_all add: lit_def)
  moreover have "sanitizePort None = None" "sanitizePort (Some []) = None"
    by (simp_all add: sanitizePort_def)
  ultimately show ?thesis
    using sanitizePort_injection
    by (simp add: PROXY_URL_def startProxy_env_def accounts_env_def claude_env_def
        DEFAULT_PORT_def)
qed

theorem invalid_port_falls_back_to_default_witness:
  "PROXY_PORT [lit ''VERTEXHUB_PORT'' \<mapsto> lit ''8080; rm -rf /''] = lit ''8090''
   \<and> startProxy_env [lit ''VERTEXHUB_PORT'' \<mapsto> lit ''8080; rm -rf /''] (lit ''PORT'')
       = Some (lit ''8090'')"
proof -
  have "sanitizePort ([lit ''VERTEXHUB_PORT'' \<mapsto> lit ''8080; rm -rf /''] (lit ''VERTEXHUB_PORT''))
          = None"
    using sanitizePort_injection by simp
  then show ?thesis
    using invalid_port_falls_back_to_default
            [of "[lit ''VERTEXHUB_PORT'' \<mapsto> lit ''8080; rm -rf /'']"]
    by blast
qed

section \<open>Claims on the subcommand filter and the terminal sanitiser\<close>

lemma Array_includes_set: "Array_includes xs x \<longleftrightarrow> x \<in> set xs"
  by (induction xs) auto

text \<open>
  Claim C4. The filter keeps exactly the arguments that are one of \<open>add\<close>, \<open>list\<close>,
  \<open>remove\<close>, \<open>verify\<close>, in their original order, and drops the others; \<open>cmdAccounts\<close>
  applies it to the arguments after the command word. On \<open>add, rm, list, DROP\<close> the
  result is \<open>add, list\<close>.
\<close>

theorem filterAllowedSubcommands_keeps_allowed_in_order:
  "filterAllowedSubcommands args =
     filter (\<lambda>arg. arg \<in> {lit ''add'', lit ''list'', lit ''remove'', lit ''verify''}) args
   \<and> subseq (filterAllowedSubcommands args) args
   \<and> cmdAccounts_subArgs (node # script # command # args) = filterAllowedSubcommands args
   \<and> filterAllowedSubcommands [lit ''add'', lit ''rm'', lit ''list'', lit ''DROP'']
       = [lit ''add'', lit ''list'']"
proof -
  have "filterAllowedSubcommands [lit ''add'', lit ''rm'', lit ''list'', lit ''DROP'']
       = [lit ''add'', lit ''list'']"
    by (simp add: filterAllowedSubcommands_def allowedSubcommands_def lit_def)
  then show ?thesis
    by (simp add: filterAllowedSubcommands_def Array_includes_set allowedSubcommands_def
        cmdAccounts_subArgs_def)
qed

theorem filterAllowedSubcommands_keeps_allowed_in_order_witness:
  "cmdAccounts_subArgs
     [lit ''node'', lit ''vertexhub.js'', lit ''accounts'', lit ''verify'', lit ''--force'',
      lit ''add'']
   = [lit ''verify'', lit ''add'']"
proof -
  have "filter (\<lambda>arg. arg \<in> {lit ''add'', lit ''list'', lit ''remove'', lit ''verify''})
          [lit ''verify'', lit ''--force'', lit ''add''] = [lit ''verify'', lit ''add'']"
    by (simp add: lit_def)
  then show ?thesis
    using filterAllowedSubcommands_keeps_allowed_in_order
            [of "[lit ''verify'', lit ''--force'', lit ''add'']"
                "lit ''node''" "lit ''vertexhub.js''" "lit ''accounts''"]
    by simp
qed

lemma classMatches_controlClass: "classMatches controlClass c \<longleftrightarrow> spec_isControl c"
proof -
  have "classMatches controlClass c \<longleftrightarrow>
          (c \<le> 0x08 \<or> (0x0B \<le> c \<and> c \<le> 0x0B) \<or> (0x0C \<le> c \<and> c \<le> 0x0C)
           \<or> (0x0E \<le> c \<and> c \<le> 0x1F) \<or> (0x7F \<le> c \<and> c \<le> 0x7F))"
    by (simp add: classMatches_def controlClass_def)
  also have "\<dots> \<longleftrightarrow> spec_isControl c"
    unfolding spec_isControl_def word_le_nat_alt word_unat_eq_iff [of c]
    by simp arith
  finally show ?thesis .
qed

text \<open>
  Claim C8. \<open>sanitizeForTerminal\<close> (the specification's \<open>stripControlChars\<close>) is
  idempotent, and its result is the input with exactly the code units of the ranges
  0x00 to 0x08, 0x0B to 0x0C, 0x0E to 0x1F and 0x7F deleted: every other code unit stays,
  in order. In particular printable ASCII and every code unit from 0x80 on stay.
\<close>

theorem sanitizeForTerminal_idempotent_keeps_others:
  "sanitizeForTerminal (sanitizeForTerminal s) = sanitizeForTerminal s
   \<and> sanitizeForTerminal s = filter (\<lambda>c. \<not> spec_isControl c) s
   \<and> (\<forall>c. 0x20 \<le> c \<and> c \<le> 0x7E \<longrightarrow> \<not> spec_isControl c)
   \<and> (\<forall>c. 0x80 \<le> c \<longrightarrow> \<not> spec_isControl c)
   \<and> ((\<forall>c\<in>set s. \<not> spec_isControl c) \<longrightarrow> sanitizeForTerminal s = s)"
proof -
  have "\<not> spec_isControl c" if "0x20 \<le> c \<and> c \<le> 0x7E" for c
    using that by (auto simp: spec_isControl_def word_le_nat_alt)
  moreover have "\<not> spec_isControl c" if "0x80 \<le> c" for c
    using that by (auto simp: spec_isControl_def word_le_nat_alt)
  ultimately show ?thesis
    by (simp add: sanitizeForTerminal_def replaceClassGlobal_def classMatches_controlClass)
qed

theorem sanitizeForTerminal_idempotent_keeps_others_witness:
  "filter (\<lambda>c. \<not> spec_isControl c) [0x61, 0x1B, 0x5B, 0x33, 0x31, 0x6D, 0xE9, 0x07, 0x62]
     = [0x61, 0x5B, 0x33, 0x31, 0x6D, 0xE9, 0x62]
   \<and> \<not> spec_isControl 0x41 \<and> \<not> spec_isControl 0x20AC
   \<and> sanitizeForTerminal (lit ''ok'') = lit ''ok''"
proof -
  have "sanitizeForTerminal [0x61, 0x1B, 0x5B, 0x33, 0x31, 0x6D, 0xE9, 0x07, 0x62]
          = [0x61, 0x5B, 0x33, 0x31, 0x6D, 0xE9, 0x62]"
    by (simp add: sanitizeForTerminal_def replaceClassGlobal_def classMatches_def controlClass_def)
  moreover have "(0x20 :: codeunit) \<le> 0x41 \<and> (0x41 :: codeunit) \<le> 0x7E"
    "(0x80 :: codeunit) \<le> 0x20AC" by simp_all
  moreover have "\<forall>c\<in>set (lit ''ok''). \<not> spec_isControl c"
    by (simp add: lit_def spec_isControl_def)
  ultimately show ?thesis
    using sanitizeForTerminal_idempotent_keeps_others
            [of "[0x61, 0x1B, 0x5B, 0x33, 0x31, 0x6D, 0xE9, 0x07, 0x62]"]
          sanitizeForTerminal_idempotent_keeps_others [of "lit ''ok''"]
    by metis
qed

section \<open>Claims on the configuration files\<close>

lemma normalised_is_object:
  "\<exists>kvs. fst (case p of (v, w') \<Rightarrow>
            (if typeof v \<noteq> ''object'' \<or> v = JNull \<or> Array_isArray v then JObj [] else v, w'))
          = JObj kvs"
proof (cases p)
  case (Pair v w')
  then show ?thesis by (cases v) simp_all
qed

lemma loadSettings_object: "\<exists>kvs. fst (loadSettings JSON_parse w) = JObj kvs"
  unfolding loadSettings_def Let_def by (rule normalised_is_object)

lemma loadSettings_text:
  assumes "files w CLAUDE_SETTINGS_FILE = Some (File text)"
  shows "loadSettings JSON_parse w =
           (case JSON_parse text of
              Inl e \<Rightarrow>
                (JObj [],
                 say (say w (WarnCouldNotParse CLAUDE_SETTINGS_FILE e)) WarnCreatingNewSettings)
            | Inr v \<Rightarrow> (case v of JObj kvs \<Rightarrow> v | _ \<Rightarrow> JObj [], w))"
  using assms
  by (simp add: loadSettings_def existsSync_def readFileSync_def split: sum.splits json.splits)

text \<open>
  Claim C5. The load of the settings document (the specification's \<open>mergeJsonObject\<close>)
  always yields a plain object and raises nothing: every exception of the read and of
  the parse is caught. When the text of the file does not parse, or parses to \<open>null\<close>, to
  an array or to a primitive, the document is the empty object; an object is kept.
\<close>

theorem loadSettings_never_throws_defaults_to_empty:
  "(\<exists>kvs. fst (loadSettings JSON_parse w) = JObj kvs)
   \<and> (files w CLAUDE_SETTINGS_FILE = Some (File text) \<longrightarrow>
        (\<forall>e. JSON_parse text = Inl e \<longrightarrow> fst (loadSettings JSON_parse w) = JObj [])
        \<and> (\<forall>v. JSON_parse text = Inr v \<and> (\<forall>kvs. v \<noteq> JObj kvs) \<longrightarrow>
               fst (loadSettings JSON_parse w) = JObj [])
        \<and> (JSON_parse text = Inr JNull \<longrightarrow> fst (loadSettings JSON_parse w) = JObj [])
        \<and> (\<forall>xs. JSON_parse text = Inr (JArr xs) \<longrightarrow> fst (loadSettings JSON_parse w) = JObj [])
        \<and> (\<forall>kvs. JSON_parse text = Inr (JObj kvs) \<longrightarrow>
               fst (loadSettings JSON_parse w) = JObj kvs))"
proof -
  have "fst (loadSettings JSON_parse w) = JObj []"
    if "files w CLAUDE_SETTINGS_FILE = Some (File text)" "JSON_parse text = Inr v"
      "\<forall>kvs. v \<noteq> JObj kvs" for v
    using that by (cases v) (simp_all add: loadSettings_text)
  then show ?thesis
    using loadSettings_object [of JSON_parse w]
    by (auto simp: loadSettings_text)
qed

lemmas demo_eval =
  demoParser_def tableParser_def demoSettingsText_def flagFalseText_def flagTrueText_def
  flagTrueWritten_def jsonQuote_def lit_def

theorem loadSettings_never_throws_defaults_to_empty_witness:
  "fst (loadSettings demoParser (demoWorld [CLAUDE_SETTINGS_FILE \<mapsto> File (lit ''[1,2,3]'')])) = JObj []
   \<and> fst (loadSettings demoParser (demoWorld [CLAUDE_SETTINGS_FILE \<mapsto> File (lit ''null'')])) = JObj []
   \<and> fst (loadSettings demoParser (demoWorld [CLAUDE_SETTINGS_FILE \<mapsto> File (lit ''{not json'')])) = JObj []"
proof -
  have "demoParser (lit ''[1,2,3]'') = Inr (JArr [JNum (Finite 1), JNum (Finite 2), JNum (Finite 3)])"
    "demoParser (lit ''null'') = Inr JNull"
    "demoParser (lit ''{not json'') = Inl SyntaxError"
    by (simp_all add: demo_eval)
  moreover have "files (demoWorld [CLAUDE_SETTINGS_FILE \<mapsto> File t]) CLAUDE_SETTINGS_FILE = Some (File t)"
    for t by (simp add: demoWorld_def)
  ultimately show ?thesis
    using loadSettings_never_throws_defaults_to_empty
            [of demoParser "demoWorld [CLAUDE_SETTINGS_FILE \<mapsto> File (lit ''[1,2,3]'')]" "lit ''[1,2,3]''"]
          loadSettings_never_throws_defaults_to_empty
            [of demoParser "demoWorld [CLAUDE_SETTINGS_FILE \<mapsto> File (lit ''null'')]" "lit ''null''"]
          loadSettings_never_throws_defaults_to_empty
            [of demoParser "demoWorld [CLAUDE_SETTINGS_FILE \<mapsto> File (lit ''{not json'')]" "lit ''{not json''"]
    by blast
qed

lemma map_of_fold_update:
  "map_of (fold (\<lambda>(k, v). AList.update k v) ps al) = map_of al ++ map_of (rev ps)"
proof (induction ps arbitrary: al)
  case Nil
  then show ?case by simp
next
  case (Cons p ps)
  obtain k v where p: "p = (k, v)" by (cases p)
  have "map_of (AList.update k v al) ++ map_of (rev ps) =
          map_of al ++ ([k \<mapsto> v] ++ map_of (rev ps))"
    by (rule ext) (simp add: update_conv' map_add_def split: option.splits)
  then show ?case using Cons [of "AList.update k v al"] by (simp add: p)
qed

lemma distinct_fixedEnv: "distinct (map fst (fixedEnv process_env))"
  by (simp add: fixedEnv_def lit_def)

lemma mergedEnv_props:
  "\<exists>e. mergedEnv process_env settings = JObj e
     \<and> (\<forall>k v. (k, v) \<in> set (fixedEnv process_env) \<longrightarrow> map_of e k = Some v)
     \<and> (\<forall>k. k \<notin> fst ` set (fixedEnv process_env) \<longrightarrow>
           map_of e k =
           map_of (ownEnumerableProps (orEmptyObject (getProp settings (lit ''env'')))) k)
     \<and> dom (map_of (ownEnumerableProps (orEmptyObject (getProp settings (lit ''env'')))))
           \<subseteq> dom (map_of e)"
proof -
  define old where "old = ownEnumerableProps (orEmptyObject (getProp settings (lit ''env'')))"
  define e where "e = fold (\<lambda>(k, v). AList.update k v) (fixedEnv process_env) old"
  have m: "map_of e = map_of old ++ map_of (rev (fixedEnv process_env))"
    by (simp add: e_def map_of_fold_update)
  have 1: "mergedEnv process_env settings = JObj e"
    by (simp add: mergedEnv_def e_def old_def)
  have 2: "map_of e k = Some v" if "(k, v) \<in> set (fixedEnv process_env)" for k v
  proof -
    have "map_of (rev (fixedEnv process_env)) k = Some v"
      using that distinct_fixedEnv [of process_env]
      by (intro map_of_is_SomeI) (simp_all add: rev_map [symmetric])
    then show ?thesis by (simp add: m)
  qed
  have 3: "map_of e k = map_of old k" if "k \<notin> fst ` set (fixedEnv process_env)" for k
  proof -
    have "map_of (rev (fixedEnv process_env)) k = None"
      using that by (simp add: map_of_eq_None_iff)
    then show ?thesis by (simp add: m map_add_def)
  qed
  have 4: "dom (map_of old) \<subseteq> dom (map_of e)"
    by (simp add: m)
  show ?thesis
    using 1 2 3 4 unfolding old_def by blast
qed


lemma say_fields [simp]:
  "files (say w m) = files w" "unwritable (say w m) = unwritable w"
  by (simp_all add: say_def)

lemma loadClaudeJson_world:
  "files (snd (loadClaudeJson JSON_parse w)) = files w
   \<and> unwritable (snd (loadClaudeJson JSON_parse w)) = unwritable w"
  by (simp add: loadClaudeJson_def Let_def split: prod.splits sum.splits)

lemma loadClaudeJson_text:
  assumes "files w CLAUDE_JSON_FILE = Some (File text)"
  shows "fst (loadClaudeJson JSON_parse w) =
           (case JSON_parse text of
              Inl e \<Rightarrow> JObj []
            | Inr v \<Rightarrow> (case v of JObj kvs \<Rightarrow> v | _ \<Rightarrow> JObj []))"
  using assms
  by (simp add: loadClaudeJson_def existsSync_def readFileSync_def split: sum.splits json.splits)

text \<open>What a run of \<open>configureClaudeSettings\<close> that returns leaves in the two files.\<close>

lemma configureClaudeSettings_files:
  assumes "configureClaudeSettings JSON_parse JSON_stringify process_env w = Inr w'"
    and "loadSettings JSON_parse w = (settings, w1)"
    and "files w1 = files w"
    and "\<And>w2. files w2 CLAUDE_JSON_FILE = files w CLAUDE_JSON_FILE \<Longrightarrow>
           fst (loadClaudeJson JSON_parse w2) = claudeJson"
  shows "files w' CLAUDE_SETTINGS_FILE =
           Some (File (JSON_stringify
             (setProp settings (lit ''env'') (mergedEnv process_env settings))))"
    and "files w' CLAUDE_JSON_FILE =
           (if truthy (getProp claudeJson (lit ''hasCompletedOnboarding''))
            then files w CLAUDE_JSON_FILE
            else Some (File (JSON_stringify
                   (setProp claudeJson (lit ''hasCompletedOnboarding'') (JBool True)))))"
proof -
  define text1 where
    "text1 = JSON_stringify (setProp settings (lit ''env'') (mergedEnv process_env settings))"
  define w2 where "w2 = say (w1\<lparr>files := (files w1)(CLAUDE_SETTINGS_FILE \<mapsto> File text1)\<rparr>)
                          OkSettingsConfigured"
  obtain cj w3 where l: "loadClaudeJson JSON_parse w2 = (cj, w3)"
    by (cases "loadClaudeJson JSON_parse w2")
  have f2: "files w2 = (files w)(CLAUDE_SETTINGS_FILE \<mapsto> File text1)"
    by (simp add: w2_def assms(3))
  then have cj: "cj = claudeJson"
    using assms(4) [of w2] l by simp
  have f3: "files w3 = files w2"
    using loadClaudeJson_world [of JSON_parse w2] l by simp
  have run: "(if \<not> truthy (getProp claudeJson (lit ''hasCompletedOnboarding'')) then
                (case writeFileSecure w3 CLAUDE_JSON_FILE
                        (JSON_stringify
                           (setProp claudeJson (lit ''hasCompletedOnboarding'') (JBool True))) of
                   Inl e \<Rightarrow> Inl e
                 | Inr w4 \<Rightarrow> Inr (say w4 OkOnboardingBypassed))
              else Inr w3) = Inr w'"
    using assms(1,2) l cj
    by (simp add: configureClaudeSettings_def writeFileSecure_def w2_def text1_def
        split: if_splits)
  show "files w' CLAUDE_SETTINGS_FILE =
           Some (File (JSON_stringify
             (setProp settings (lit ''env'') (mergedEnv process_env settings))))"
    using run f3 f2
    by (auto simp: writeFileSecure_def text1_def split: if_splits)
  show "files w' CLAUDE_JSON_FILE =
           (if truthy (getProp claudeJson (lit ''hasCompletedOnboarding''))
            then files w CLAUDE_JSON_FILE
            else Some (File (JSON_stringify
                   (setProp claudeJson (lit ''hasCompletedOnboarding'') (JBool True)))))"
    using run f3 f2
    by (auto simp: writeFileSecure_def split: if_splits)
qed


lemma loadSettings_world:
  "files (snd (loadSettings JSON_parse w)) = files w
   \<and> unwritable (snd (loadSettings JSON_parse w)) = unwritable w"
  by (simp add: loadSettings_def Let_def split: prod.splits sum.splits)

lemma loadClaudeJson_fst:
  "fst (loadClaudeJson JSON_parse w) =
     (case files w CLAUDE_JSON_FILE of
        Some (File text) \<Rightarrow>
          (case JSON_parse text of
             Inl e \<Rightarrow> JObj []
           | Inr v \<Rightarrow> (case v of JObj kvs \<Rightarrow> v | _ \<Rightarrow> JObj []))
      | _ \<Rightarrow> JObj [])"
proof (cases "files w CLAUDE_JSON_FILE")
  case None
  then show ?thesis by (simp add: loadClaudeJson_def existsSync_def)
next
  case (Some node)
  show ?thesis
  proof (cases node)
    case Unreadable
    then show ?thesis
      using Some by (simp add: loadClaudeJson_def existsSync_def readFileSync_def)
  next
    case (File content)
    then show ?thesis
      using Some loadClaudeJson_text [of w content JSON_parse] by simp
  qed
qed

lemma loadClaudeJson_cong:
  "files w2 CLAUDE_JSON_FILE = files w CLAUDE_JSON_FILE \<Longrightarrow>
     fst (loadClaudeJson JSON_parse w2) = fst (loadClaudeJson JSON_parse w)"
  by (simp add: loadClaudeJson_fst)

text \<open>When the directory can be made and both files written, the function returns.\<close>

lemma configureClaudeSettings_returns:
  assumes "\<not> mkdir_fails w" "\<And>p. \<not> unwritable w p"
  shows "\<exists>w'. configureClaudeSettings JSON_parse JSON_stringify process_env w = Inr w'"
proof -
  obtain settings w1 where l1: "loadSettings JSON_parse w = (settings, w1)"
    by (cases "loadSettings JSON_parse w")
  then have u1: "unwritable w1 = unwritable w"
    using loadSettings_world [of JSON_parse w] by simp
  define w2 where
    "w2 = say (w1\<lparr>files := (files w1)(CLAUDE_SETTINGS_FILE \<mapsto> File (JSON_stringify
             (setProp settings (lit ''env'') (mergedEnv process_env settings))))\<rparr>)
           OkSettingsConfigured"
  obtain cj w3 where l2: "loadClaudeJson JSON_parse w2 = (cj, w3)"
    by (cases "loadClaudeJson JSON_parse w2")
  then have "unwritable w3 = unwritable w2"
    using loadClaudeJson_world [of JSON_parse w2] by simp
  then have u3: "\<not> unwritable w3 p" for p
    using assms(2) u1 by (simp add: w2_def)
  show ?thesis
    using assms l1 l2 u1 u3
    by (simp add: configureClaudeSettings_def writeFileSecure_def w2_def)
qed

text \<open>
  Claim C6. When the settings file holds a valid object and \<open>configureClaudeSettings\<close>
  returns, the object it has written agrees with the old one on every top-level key other
  than \<open>env\<close>; its \<open>env\<close> is an object that has every key of the old \<open>env\<close> object (each
  with its old value, unless it is one of the seven fixed keys) and maps every fixed
  key to its fixed value.
\<close>

theorem configureClaudeSettings_merges_env:
  assumes "files w CLAUDE_SETTINGS_FILE = Some (File text)"
    and "JSON_parse text = Inr (JObj kvs)"
    and "configureClaudeSettings JSON_parse JSON_stringify process_env w = Inr w'"
  shows "\<exists>obj env'.
           files w' CLAUDE_SETTINGS_FILE = Some (File (JSON_stringify (JObj obj)))
           \<and> (\<forall>k. k \<noteq> lit ''env'' \<longrightarrow> map_of obj k = map_of kvs k)
           \<and> map_of obj (lit ''env'') = Some (JObj env')
           \<and> (\<forall>old. map_of kvs (lit ''env'') = Some (JObj old) \<longrightarrow>
                 dom (map_of old) \<subseteq> dom (map_of env')
                 \<and> (\<forall>k. k \<notin> fst ` set (fixedEnv process_env) \<longrightarrow> map_of env' k = map_of old k))
           \<and> (\<forall>(k, v)\<in>set (fixedEnv process_env). map_of env' k = Some v)"
proof -
  have l: "loadSettings JSON_parse w = (JObj kvs, w)"
    using assms(1,2) by (simp add: loadSettings_text)
  obtain e where e: "mergedEnv process_env (JObj kvs) = JObj e"
    and fixed: "\<forall>k v. (k, v) \<in> set (fixedEnv process_env) \<longrightarrow> map_of e k = Some v"
    and other: "\<forall>k. k \<notin> fst ` set (fixedEnv process_env) \<longrightarrow>
           map_of e k =
           map_of (ownEnumerableProps (orEmptyObject (getProp (JObj kvs) (lit ''env'')))) k"
    and keys: "dom (map_of (ownEnumerableProps (orEmptyObject (getProp (JObj kvs) (lit ''env'')))))
           \<subseteq> dom (map_of e)"
    using mergedEnv_props [of process_env "JObj kvs"] by blast
  have "files w' CLAUDE_SETTINGS_FILE =
          Some (File (JSON_stringify (JObj (AList.update (lit ''env'') (JObj e) kvs))))"
    using configureClaudeSettings_files(1) [OF assms(3) l refl loadClaudeJson_cong] e
    by simp
  moreover have "\<forall>k. k \<noteq> lit ''env'' \<longrightarrow>
                   map_of (AList.update (lit ''env'') (JObj e) kvs) k = map_of kvs k"
    by (simp add: update_conv')
  moreover have "map_of (AList.update (lit ''env'') (JObj e) kvs) (lit ''env'') = Some (JObj e)"
    by (simp add: update_conv')
  moreover have "dom (map_of old) \<subseteq> dom (map_of e)
                 \<and> (\<forall>k. k \<notin> fst ` set (fixedEnv process_env) \<longrightarrow> map_of e k = map_of old k)"
    if "map_of kvs (lit ''env'') = Some (JObj old)" for old
    using that other keys by (simp add: orEmptyObject_def)
  moreover have "\<forall>(k, v)\<in>set (fixedEnv process_env). map_of e k = Some v"
    using fixed by blast
  ultimately show ?thesis by blast
qed

lemma demoWorld_returns:
  "\<exists>w'. configureClaudeSettings JSON_parse JSON_stringify process_env (demoWorld fs) = Inr w'"
  by (rule configureClaudeSettings_returns) (simp_all add: demoWorld_def)

theorem configureClaudeSettings_merges_env_witness:
  "\<exists>w' obj env'.
     configureClaudeSettings demoParser demoStringifier Map.empty
       (demoWorld [CLAUDE_SETTINGS_FILE \<mapsto> File demoSettingsText]) = Inr w'
     \<and> files w' CLAUDE_SETTINGS_FILE = Some (File (demoStringifier (JObj obj)))
     \<and> map_of obj (lit ''theme'') = Some (JStr (lit ''dark''))
     \<and> map_of obj (lit ''env'') = Some (JObj env')
     \<and> map_of env' (lit ''FOO'') = Some (JStr (lit ''bar''))
     \<and> map_of env' (lit ''ANTHROPIC_AUTH_TOKEN'') = Some (JStr (lit ''vertexhub-proxy''))"
proof -
  define w where "w = demoWorld [CLAUDE_SETTINGS_FILE \<mapsto> File demoSettingsText]"
  obtain w' where r: "configureClaudeSettings demoParser demoStringifier Map.empty w = Inr w'"
    using demoWorld_returns unfolding w_def by blast
  have f: "files w CLAUDE_SETTINGS_FILE = Some (File demoSettingsText)"
    by (simp add: w_def demoWorld_def)
  have p: "demoParser demoSettingsText = Inr (JObj demoSettings)"
    by (simp add: demo_eval)
  obtain obj env' where o:
    "files w' CLAUDE_SETTINGS_FILE = Some (File (demoStringifier (JObj obj)))"
    "\<forall>k. k \<noteq> lit ''env'' \<longrightarrow> map_of obj k = map_of demoSettings k"
    "map_of obj (lit ''env'') = Some (JObj env')"
    "\<forall>old. map_of demoSettings (lit ''env'') = Some (JObj old) \<longrightarrow>
        dom (map_of old) \<subseteq> dom (map_of env')
        \<and> (\<forall>k. k \<notin> fst ` set (fixedEnv Map.empty) \<longrightarrow> map_of env' k = map_of old k)"
    "\<forall>(k, v)\<in>set (fixedEnv Map.empty). map_of env' k = Some v"
    using configureClaudeSettings_merges_env [OF f p r] by blast
  have "lit ''theme'' \<noteq> lit ''env''" by (simp add: lit_def)
  then have 1: "map_of obj (lit ''theme'') = Some (JStr (lit ''dark''))"
    using o(2) by (simp add: demoSettings_def)
  have "map_of demoSettings (lit ''env'') = Some (JObj [(lit ''FOO'', JStr (lit ''bar''))])"
    by (simp add: demoSettings_def lit_def)
  moreover have "lit ''FOO'' \<notin> fst ` set (fixedEnv Map.empty)"
    by (simp add: fixedEnv_def lit_def)
  ultimately have 2: "map_of env' (lit ''FOO'') = Some (JStr (lit ''bar''))"
    using o(4) by simp
  have "(lit ''ANTHROPIC_AUTH_TOKEN'', JStr (lit ''vertexhub-proxy'')) \<in> set (fixedEnv Map.empty)"
    by (simp add: fixedEnv_def)
  then have 3: "map_of env' (lit ''ANTHROPIC_AUTH_TOKEN'') = Some (JStr (lit ''vertexhub-proxy''))"
    using o(5) by blast
  show ?thesis
    using r o(1,3) 1 2 3 unfolding w_def by blast
qed

lemma onboarding_file_after:
  assumes "files w CLAUDE_JSON_FILE = Some (File content)"
    and "JSON_parse content = Inr (JObj kvs)"
    and "configureClaudeSettings JSON_parse JSON_stringify process_env w = Inr w'"
  shows "files w' CLAUDE_JSON_FILE =
           (if truthy (map_of kvs (lit ''hasCompletedOnboarding'')) then Some (File content)
            else Some (File (JSON_stringify
                   (JObj (AList.update (lit ''hasCompletedOnboarding'') (JBool True) kvs)))))"
proof -
  obtain settings w1 where l: "loadSettings JSON_parse w = (settings, w1)"
    by (cases "loadSettings JSON_parse w")
  then have f1: "files w1 = files w"
    using loadSettings_world [of JSON_parse w] by simp
  have cj: "fst (loadClaudeJson JSON_parse w2) = JObj kvs"
    if "files w2 CLAUDE_JSON_FILE = files w CLAUDE_JSON_FILE" for w2
    using that assms(1,2) by (simp add: loadClaudeJson_fst)
  show ?thesis
    using configureClaudeSettings_files(2) [OF assms(3) l f1 cj] assms(1) by simp
qed

text \<open>
  Claim C9, as stated, says that a flag already present in the parsed document is left
  alone and the file is not rewritten. With the flag present and \<open>false\<close> the file is
  rewritten with the flag \<open>true\<close>: the test is \<open>!claudeJson.hasCompletedOnboarding\<close>.
\<close>

theorem onboarding_flag_present_counterexample:
  "files (demoWorld [CLAUDE_JSON_FILE \<mapsto> File flagFalseText]) CLAUDE_JSON_FILE
     = Some (File flagFalseText)
   \<and> demoParser flagFalseText = Inr (JObj [(lit ''hasCompletedOnboarding'', JBool False)])
   \<and> \<not> isl (configureClaudeSettings demoParser demoStringifier Map.empty
              (demoWorld [CLAUDE_JSON_FILE \<mapsto> File flagFalseText]))
   \<and> files (projr (configureClaudeSettings demoParser demoStringifier Map.empty
                     (demoWorld [CLAUDE_JSON_FILE \<mapsto> File flagFalseText]))) CLAUDE_JSON_FILE
       = Some (File flagTrueWritten)
   \<and> flagTrueWritten \<noteq> flagFalseText"
proof -
  define w where "w = demoWorld [CLAUDE_JSON_FILE \<mapsto> File flagFalseText]"
  obtain w' where r: "configureClaudeSettings demoParser demoStringifier Map.empty w = Inr w'"
    using demoWorld_returns unfolding w_def by blast
  have f: "files w CLAUDE_JSON_FILE = Some (File flagFalseText)"
    by (simp add: w_def demoWorld_def)
  have p: "demoParser flagFalseText = Inr (JObj [(lit ''hasCompletedOnboarding'', JBool False)])"
    by (simp add: demo_eval)
  have "files w' CLAUDE_JSON_FILE =
          Some (File (demoStringifier (JObj [(lit ''hasCompletedOnboarding'', JBool True)])))"
    using onboarding_file_after [OF f p r] by simp
  then have "files w' CLAUDE_JSON_FILE = Some (File flagTrueWritten)"
    by (simp add: demoStringifier_def tableStringifier_def)
  moreover have "flagTrueWritten \<noteq> flagFalseText"
    by (simp add: demo_eval)
  ultimately show ?thesis
    using r f p unfolding w_def by simp
qed

text \<open>
  Claim C9, amended. The flag is set (to \<open>true\<close>, and the file rewritten) exactly when it
  is absent from the parsed document or falsy there; when it is present with a truthy
  value, the file is not rewritten and the flag keeps its value.
\<close>

theorem onboarding_flag_set_iff_absent_or_falsy:
  assumes "files w CLAUDE_JSON_FILE = Some (File content)"
    and "JSON_parse content = Inr (JObj kvs)"
    and "configureClaudeSettings JSON_parse JSON_stringify process_env w = Inr w'"
  shows "(truthy (map_of kvs (lit ''hasCompletedOnboarding'')) \<longrightarrow>
            files w' CLAUDE_JSON_FILE = files w CLAUDE_JSON_FILE)
         \<and> (files w' CLAUDE_JSON_FILE \<noteq> files w CLAUDE_JSON_FILE \<longrightarrow>
              map_of kvs (lit ''hasCompletedOnboarding'') = None
              \<or> \<not> truthy (map_of kvs (lit ''hasCompletedOnboarding'')))
         \<and> (\<not> truthy (map_of kvs (lit ''hasCompletedOnboarding'')) \<longrightarrow>
              files w' CLAUDE_JSON_FILE =
                Some (File (JSON_stringify
                  (JObj (AList.update (lit ''hasCompletedOnboarding'') (JBool True) kvs)))))"
  using onboarding_file_after [OF assms] assms(1) by simp

theorem onboarding_flag_set_iff_absent_or_falsy_witness:
  "(\<exists>w'. configureClaudeSettings demoParser demoStringifier Map.empty
           (demoWorld [CLAUDE_JSON_FILE \<mapsto> File flagTrueText]) = Inr w'
         \<and> files w' CLAUDE_JSON_FILE = Some (File flagTrueText))
   \<and> (\<exists>w'. configureClaudeSettings demoParser demoStringifier Map.empty
           (demoWorld [CLAUDE_JSON_FILE \<mapsto> File (lit ''{}'')]) = Inr w'
         \<and> files w' CLAUDE_JSON_FILE = Some (File flagTrueWritten))"
proof -
  define w where "w = demoWorld [CLAUDE_JSON_FILE \<mapsto> File flagTrueText]"
  obtain w' where r: "configureClaudeSettings demoParser demoStringifier Map.empty w = Inr w'"
    using demoWorld_returns unfolding w_def by blast
  have f: "files w CLAUDE_JSON_FILE = Some (File flagTrueText)"
    by (simp add: w_def demoWorld_def)
  have p: "demoParser flagTrueText = Inr (JObj [(lit ''hasCompletedOnboarding'', JBool True)])"
    by (simp add: demo_eval)
  have "truthy (map_of [(lit ''hasCompletedOnboarding'', JBool True)]
                  (lit ''hasCompletedOnboarding''))"
    by simp
  then have "files w' CLAUDE_JSON_FILE = files w CLAUDE_JSON_FILE"
    using onboarding_flag_set_iff_absent_or_falsy [OF f p r] by blast
  then have 1: "\<exists>w'. configureClaudeSettings demoParser demoStringifier Map.empty w = Inr w'
                  \<and> files w' CLAUDE_JSON_FILE = Some (File flagTrueText)"
    using r f by simp
  define v where "v = demoWorld [CLAUDE_JSON_FILE \<mapsto> File (lit ''{}'')]"
  obtain v' where r': "configureClaudeSettings demoParser demoStringifier Map.empty v = Inr v'"
    using demoWorld_returns unfolding v_def by blast
  have f': "files v CLAUDE_JSON_FILE = Some (File (lit ''{}''))"
    by (simp add: v_def demoWorld_def)
  have p': "demoParser (lit ''{}'') = Inr (JObj [])"
    by (simp add: demo_eval)
  have "\<not> truthy (map_of [] (lit ''hasCompletedOnboarding''))"
    by simp
  then have "files v' CLAUDE_JSON_FILE =
               Some (File (demoStringifier
                 (JObj (AList.update (lit ''hasCompletedOnboarding'') (JBool True) []))))"
    using onboarding_flag_set_iff_absent_or_falsy [OF f' p' r'] by blast
  then have "files v' CLAUDE_JSON_FILE = Some (File flagTrueWritten)"
    by (simp add: demoStringifier_def tableStringifier_def)
  then have 2: "\<exists>v'. configureClaudeSettings demoParser demoStringifier Map.empty v = Inr v'
                  \<and> files v' CLAUDE_JSON_FILE = Some (File flagTrueWritten)"
    using r' by simp
  show ?thesis
    using 1 2 unfolding w_def v_def by blast
qed

section \<open>Claims on starting and stopping the proxy\<close>

lemma waitLoop_all_down:
  "i \<le> 15 \<Longrightarrow> (\<forall>j. i \<le> j \<and> j < 15 \<longrightarrow> \<not> up j) \<Longrightarrow>
     waitLoop up i tr = (False, tr @ concat (replicate (15 - i) loopStep))"
proof (induction up i tr rule: waitLoop.induct)
  case (1 up i tr)
  show ?case
  proof (cases "i < 15")
    case True
    then have down: "\<not> up i" using 1(3) by simp
    have "waitLoop up (Suc i) (tr @ loopStep) =
            (False, (tr @ loopStep) @ concat (replicate (15 - Suc i) loopStep))"
      using 1(1) [OF True down] True 1(3) by (simp add: loopStep_def)
    moreover have "15 - i = Suc (15 - Suc i)" using True by simp
    ultimately show ?thesis
      using True down by (subst waitLoop.simps) (simp add: loopStep_def)
  next
    case False
    then show ?thesis using 1(2) by (subst waitLoop.simps) simp
  qed
qed

lemma waitLoop_first_up:
  "i \<le> k \<Longrightarrow> k < 15 \<Longrightarrow> up k \<Longrightarrow> (\<forall>j. i \<le> j \<and> j < k \<longrightarrow> \<not> up j) \<Longrightarrow>
     waitLoop up i tr = (True, tr @ concat (replicate (k - i) loopStep) @ [Sleep 1000, Probe])"
proof (induction up i tr rule: waitLoop.induct)
  case (1 up i tr)
  have lt: "i < 15" using 1(2,3) by simp
  show ?case
  proof (cases "up i")
    case True
    then have "i = k" using 1(2,5) by (metis le_neq_implies_less order_refl)
    then show ?thesis using True lt by (subst waitLoop.simps) simp
  next
    case False
    then have ik: "Suc i \<le> k" using 1(2,4) by (metis Suc_leI le_neq_implies_less)
    have "waitLoop up (Suc i) (tr @ loopStep) =
            (True, (tr @ loopStep) @ concat (replicate (k - Suc i) loopStep) @ [Sleep 1000, Probe])"
      using 1(1) [OF lt False ik 1(3,4)] 1(5) by (simp add: loopStep_def)
    moreover have "k - i = Suc (k - Suc i)" using ik by simp
    ultimately show ?thesis
      using False lt by (subst waitLoop.simps) (simp add: loopStep_def)
  qed
qed

lemma waitLoop_started_iff:
  "i \<le> 15 \<Longrightarrow> fst (waitLoop up i tr) \<longleftrightarrow> (\<exists>j. i \<le> j \<and> j < 15 \<and> up j)"
proof (induction up i tr rule: waitLoop.induct)
  case (1 up i tr)
  show ?case
  proof (cases "i < 15")
    case True
    show ?thesis
    proof (cases "up i")
      case up: True
      then show ?thesis using True by (subst waitLoop.simps) auto
    next
      case False
      have "fst (waitLoop up (Suc i) (tr @ [Sleep 1000, Probe, StdoutWrite (lit ''.'')]))
              \<longleftrightarrow> (\<exists>j. Suc i \<le> j \<and> j < 15 \<and> up j)"
        using 1(1) [OF True False] True by simp
      moreover have "(\<exists>j. Suc i \<le> j \<and> j < 15 \<and> up j) \<longleftrightarrow> (\<exists>j. i \<le> j \<and> j < 15 \<and> up j)"
        using False by (metis Suc_leD Suc_leI le_neq_implies_less)
      ultimately show ?thesis
        using False True by (subst waitLoop.simps) simp
    qed
  next
    case False
    then show ?thesis by (subst waitLoop.simps) auto
  qed
qed

lemma count_probes_steps:
  "length (filter (\<lambda>e. e = Probe) (concat (replicate n loopStep))) = n"
  "length (filter (\<lambda>e. e = Sleep 1000) (concat (replicate n loopStep))) = n"
  by (induction n) (simp_all add: loopStep_def)

lemma startProxy_ready:
  "proxyDirExists h \<Longrightarrow> proxyIndexExists h \<Longrightarrow> nodeBin h \<noteq> None \<Longrightarrow>
     startProxy h = (Continue, [Console LogStartingProxy, Spawn])"
  by (auto simp: startProxy_def validateProxyDir_def requireNodeBin_def)

text \<open>
  Claim C7. When no probe finds the proxy healthy, the wait loop makes exactly 15 probes,
  each after a sleep of 1000 ms, and only then reports that the proxy did not start;
  \<open>cmdStart\<close> prints the failure and exits with code 1. When probe \<open>k\<close> is the first
  healthy one, the loop ends right after it, with \<open>k + 1\<close> probes made. The loop times out
  exactly when all 15 probes fail.
\<close>

theorem waitLoop_fifteen_attempts:
  "((\<forall>i<15. \<not> up i) \<longrightarrow>
      waitLoop up 0 [] = (False, concat (replicate 15 loopStep))
      \<and> length (filter (\<lambda>e. e = Probe) (snd (waitLoop up 0 []))) = 15
      \<and> length (filter (\<lambda>e. e = Sleep 1000) (snd (waitLoop up 0 []))) = 15
      \<and> (proxyDirExists h \<and> proxyIndexExists h \<and> nodeBin h \<noteq> None \<longrightarrow>
           cmdStart_proxy False h up =
             (Exit 1,
              [Probe, Console LogStartingProxy, Spawn] @ concat (replicate 15 loopStep)
              @ [Console BlankLine, Console ErrProxyFailedToStart, Console ErrCheckHint])))
   \<and> (\<forall>k<15. up k \<and> (\<forall>i<k. \<not> up i) \<longrightarrow>
        waitLoop up 0 [] = (True, concat (replicate k loopStep) @ [Sleep 1000, Probe])
        \<and> (proxyDirExists h \<and> proxyIndexExists h \<and> nodeBin h \<noteq> None \<longrightarrow>
             cmdStart_proxy False h up =
               (Continue,
                [Probe, Console LogStartingProxy, Spawn] @ concat (replicate k loopStep)
                @ [Sleep 1000, Probe, Console BlankLine, Console OkProxyStarted])))
   \<and> (\<not> fst (waitLoop up 0 []) \<longleftrightarrow> (\<forall>i<15. \<not> up i))"
proof -
  have down: "waitLoop up 0 tr = (False, tr @ concat (replicate 15 loopStep))"
    if "\<forall>i<15. \<not> up i" for tr
    using waitLoop_all_down [of 0 up tr] that by simp
  have first: "waitLoop up 0 tr = (True, tr @ concat (replicate k loopStep) @ [Sleep 1000, Probe])"
    if "k < 15" "up k" "\<forall>i<k. \<not> up i" for k tr
    using waitLoop_first_up [of 0 k up tr] that by simp
  have iff: "\<not> fst (waitLoop up 0 []) \<longleftrightarrow> (\<forall>i<15. \<not> up i)"
    using waitLoop_started_iff [of 0 up "[]"] by auto
  have 1: "cmdStart_proxy False h up =
             (Exit 1,
              [Probe, Console LogStartingProxy, Spawn] @ concat (replicate 15 loopStep)
              @ [Console BlankLine, Console ErrProxyFailedToStart, Console ErrCheckHint])"
    if "\<forall>i<15. \<not> up i" "proxyDirExists h \<and> proxyIndexExists h \<and> nodeBin h \<noteq> None"
    using that by (simp add: cmdStart_proxy_def startProxy_ready down)
  have 2: "cmdStart_proxy False h up =
               (Continue,
                [Probe, Console LogStartingProxy, Spawn] @ concat (replicate k loopStep)
                @ [Sleep 1000, Probe, Console BlankLine, Console OkProxyStarted])"
    if "k < 15" "up k" "\<forall>i<k. \<not> up i"
      "proxyDirExists h \<and> proxyIndexExists h \<and> nodeBin h \<noteq> None" for k
    using that by (simp add: cmdStart_proxy_def startProxy_ready first)
  show ?thesis
    using iff 1 2 by (simp add: down first count_probes_steps)
qed

theorem waitLoop_fifteen_attempts_witness:
  "waitLoop (\<lambda>i. False) 0 [] = (False, concat (replicate 15 loopStep))
   \<and> fst (cmdStart_proxy False demoHost (\<lambda>i. False)) = Exit 1
   \<and> waitLoop (\<lambda>i. i = 2) 0 [] = (True, concat (replicate 2 loopStep) @ [Sleep 1000, Probe])
   \<and> fst (cmdStart_proxy False demoHost (\<lambda>i. i = 2)) = Continue"
proof -
  have "\<forall>i<15. \<not> (\<lambda>i::nat. False) i" by simp
  moreover have "(2::nat) < 15 \<and> (\<lambda>i::nat. i = 2) 2 \<and> (\<forall>i<2. \<not> (\<lambda>i::nat. i = 2) i)" by simp
  moreover have "proxyDirExists demoHost \<and> proxyIndexExists demoHost \<and> nodeBin demoHost \<noteq> None"
    by (simp add: demoHost_def)
  ultimately show ?thesis
    using waitLoop_fifteen_attempts [of "\<lambda>i. False" demoHost]
      waitLoop_fifteen_attempts [of "\<lambda>i. i = 2" demoHost]
    by (metis fst_conv)
qed

lemma freePorts_trace:
  "freePorts execSync ports tr = tr @ map (\<lambda>port. ExecSync (fuserCommand port)) ports"
  by (induction ports arbitrary: tr) (auto split: sum.splits)

text \<open>
  Claim C10. For every configured port, \<open>stopProxy\<close> runs the forced-kill command once
  for each port of the deduplicated list made of \<open>8080\<close> and the configured port, in
  that order, whatever each command answers (a failure is swallowed), and then sleeps
  2000 ms. Port 8080 is always among the targets.
\<close>

theorem stopProxy_frees_8080_and_configured_port:
  "stopProxy execSync process_env =
     map (\<lambda>port. ExecSync (fuserCommand port)) (portsToFree process_env) @ [Sleep 2000]
   \<and> portsToFree process_env =
       (if PROXY_PORT process_env = lit ''8080'' then [lit ''8080'']
        else [lit ''8080'', PROXY_PORT process_env])
   \<and> set (portsToFree process_env) = {lit ''8080'', PROXY_PORT process_env}
   \<and> distinct (portsToFree process_env)
   \<and> lit ''8080'' \<in> set (portsToFree process_env)"
  by (auto simp: stopProxy_def freePorts_trace portsToFree_def Set_values_def)

theorem stopProxy_frees_8080_and_configured_port_witness:
  "stopProxy (\<lambda>command. Inl SystemError) Map.empty =
     [ExecSync (lit ''fuser -k 8080/tcp 2>/dev/null''),
      ExecSync (lit ''fuser -k 8090/tcp 2>/dev/null''), Sleep 2000]"
proof -
  have "PROXY_PORT Map.empty = lit ''8090''"
    by (simp add: PROXY_PORT_def sanitizePort_def DEFAULT_PORT_def)
  moreover have "lit ''8090'' \<noteq> lit ''8080''"
    by (simp add: lit_def)
  ultimately show ?thesis
    using stopProxy_frees_8080_and_configured_port [of "\<lambda>command. Inl SystemError" Map.empty]
    by (simp add: fuserCommand_def lit_def)
qed

end
